theory Spec2Isabelle
  imports Main "HOL-Library.Word"
begin

unbundle bit_operations_syntax

section \<open>Card session of the command-line tool (reader.go)\<close>

type_synonym byte = "8 word"
type_synonym uint16 = "16 word"

subsection \<open>Formatting with \<open>%02X\<close>\<close>

definition hexdigit :: "nat \<Rightarrow> char" where
  "hexdigit n = ''0123456789ABCDEF'' ! n"

fun hexdigits :: "nat \<Rightarrow> string" where
  "hexdigits n = (if n < 16 then [hexdigit n] else hexdigits (n div 16) @ [hexdigit (n mod 16)])"

declare hexdigits.simps [simp del]

text \<open>The verb \<open>%02X\<close> of Go's fmt on an unsigned value: upper-case hexadecimal, padded
  with zeros to at least two digits.\<close>

definition fmt02X :: "nat \<Rightarrow> string" where
  "fmt02X n = (let d = hexdigits n in replicate (2 - length d) (CHR ''0'') @ d)"

definition newline :: string where
  "newline = [CHR 0x0A]"

subsection \<open>The transport and the observable world\<close>

text \<open>
  \<open>card.Transmit(cmd)\<close> of the PC/SC binding returns the response bytes or an error. The
  card is an arbitrary deterministic environment: its answer is a function of all earlier
  exchanges on the connection and of the command (\<open>Inl\<close> is the error with its message).
  The world records each exchange in order, and what was printed on standard output.
  \<open>Tx\<close> is modelled for a reader whose \<open>card\<close> field holds a connection.
\<close>

type_synonym response = "string + byte list"
type_synonym exchange = "byte list \<times> response"
type_synonym transmit = "exchange list \<Rightarrow> byte list \<Rightarrow> response"

record world =
  exchanges :: "exchange list"
  stdout :: string

definition print :: "string \<Rightarrow> world \<Rightarrow> world" where
  "print s w = w\<lparr>stdout := stdout w @ s\<rparr>"

text \<open>The verbose dump of a response in \<open>Tx\<close>: 16 bytes per line, each line opened by
  \<open><<\<close>, and a final line break.\<close>

fun dump_from :: "nat \<Rightarrow> byte list \<Rightarrow> string" where
  "dump_from i [] = []"
| "dump_from i (b # bs) =
     (if i mod 0x10 = 0 then ''<<'' else []) @ '' '' @ fmt02X (unat b)
     @ (if i mod 0x10 = 0x0f then newline else []) @ dump_from (Suc i) bs"

definition dump :: "byte list \<Rightarrow> string" where
  "dump res = dump_from 0 res @ newline"

text \<open>
  \<open>Tx\<close> (reader.go, lines 109 to 141). \<open>ToBytes\<close>, which turns the text of an APDU into
  the bytes to transmit, is a helper of the package that is not part of the sources at hand:
  it is a parameter. The result is Go's triple \<open>(sw1, sw2, data)\<close>; a nil slice is the empty
  list.
\<close>

definition Tx :: "bool \<Rightarrow> (string \<Rightarrow> byte list) \<Rightarrow> transmit \<Rightarrow> string \<Rightarrow> world
    \<Rightarrow> (byte \<times> byte \<times> byte list) \<times> world" where
  "Tx verbose ToBytes Transmit apdu w =
     (let w1 = (if verbose then print (''>> '' @ apdu @ newline) w else w);
          cmd = ToBytes apdu;
          r = Transmit (exchanges w1) cmd;
          w2 = w1\<lparr>exchanges := exchanges w1 @ [(cmd, r)]\<rparr>
      in case r of
           Inl err \<Rightarrow> ((0, 0, []), print (''err: '' @ err @ newline) w2)
         | Inr res \<Rightarrow>
             (let w3 = (if verbose then print (dump res) w2 else w2);
                  l = length res
              in if l = 2 then ((res ! 0, res ! 1, []), w3)
                 else if l > 2 then ((res ! (l - 2), res ! (l - 1), take (l - 2) res), w3)
                 else ((0, 0, []), w3)))"

subsection \<open>ReadBinary\<close>

text \<open>The text of the READ BINARY command built by \<open>fmt.Sprintf\<close> in \<open>ReadBinary\<close>
  from the running position and the length byte.\<close>

definition ReadBinary_apdu :: "uint16 \<Rightarrow> byte \<Rightarrow> string" where
  "ReadBinary_apdu pos l =
     ''00 B0 '' @ fmt02X (unat (drop_bit 8 pos AND 0xFF)) @ '' '' @ fmt02X (unat (pos AND 0xFF))
     @ '' '' @ fmt02X (unat l)"

definition chunk_len :: "uint16 \<Rightarrow> uint16 \<Rightarrow> byte" where
  "chunk_len sz pos = (if sz - pos > 0xFF then 0 else ucast (sz - pos))"

text \<open>
  The paging loop of \<open>ReadBinary\<close> (reader.go, lines 151 to 166), with the loop variables
  \<open>pos\<close> and \<open>res\<close> as arguments. Nothing bounds the number of iterations, so the loop
  is a partial function: \<open>None\<close> means that it never returns. The parameter \<open>size\<close>
  is written \<open>sz\<close>.
\<close>

partial_function (option) ReadBinary_loop :: "bool \<Rightarrow> (string \<Rightarrow> byte list) \<Rightarrow> transmit
    \<Rightarrow> uint16 \<Rightarrow> uint16 \<Rightarrow> byte list \<Rightarrow> world \<Rightarrow> (byte list \<times> world) option" where
  "ReadBinary_loop verbose ToBytes Transmit sz pos res w =
     (if pos < sz then
        (case Tx verbose ToBytes Transmit (ReadBinary_apdu pos (chunk_len sz pos)) w of
           ((sw1, sw2, data), w') \<Rightarrow>
             if sw1 \<noteq> 0x90 \<or> sw2 \<noteq> 0x00 then Some ([], w')
             else ReadBinary_loop verbose ToBytes Transmit sz
                    (pos + of_nat (length data)) (res @ data) w')
      else Some (res, w))"

declare ReadBinary_loop.simps [code]

definition ReadBinary :: "bool \<Rightarrow> (string \<Rightarrow> byte list) \<Rightarrow> transmit \<Rightarrow> uint16 \<Rightarrow> world
    \<Rightarrow> (byte list \<times> world) option" where
  "ReadBinary verbose ToBytes Transmit sz w = ReadBinary_loop verbose ToBytes Transmit sz 0 [] w"

text \<open>
  The status word of a raw response as \<open>Tx\<close> reads it, for stating what a page of the read
  answered: a response is a success when it ends with the two bytes \<open>90 00\<close>.
\<close>

definition status_ok :: "response \<Rightarrow> bool" where
  "status_ok r = (case r of Inl err \<Rightarrow> False
     | Inr res \<Rightarrow> 2 \<le> length res \<and> res ! (length res - 2) = 0x90 \<and> res ! (length res - 1) = 0x00)"

text \<open>The number of bytes that a READ BINARY command asks for: by ISO 7816 the length
  byte 0 stands for 256.\<close>

definition requested :: "byte \<Rightarrow> nat" where
  "requested l = (if l = 0 then 256 else unat l)"

text \<open>
  For stating which commands a complete read sends: the number of pages of a read of \<open>sz\<close>
  bytes in pages of 256, and the bytes of the command of page \<open>k\<close> (class \<open>00\<close>,
  instruction \<open>B0\<close>, the offset \<open>256 * k\<close> with its high byte first, and the length byte
  that \<open>chunk_len\<close> computes at that offset).
\<close>

definition pages :: "uint16 \<Rightarrow> nat" where
  "pages sz = (unat sz + 255) div 256"

definition page_command :: "uint16 \<Rightarrow> nat \<Rightarrow> byte list" where
  "page_command sz k = [0x00, 0xB0, of_nat k, 0x00, chunk_len sz (of_nat (256 * k))]"

subsection \<open>WaitForCard\<close>

text \<open>
  The fields of \<open>scard.ReaderState\<close> that \<open>WaitForCard\<close> uses, and the state flags of
  PC/SC (\<open>SCARD_STATE_UNAWARE\<close> and \<open>SCARD_STATE_PRESENT\<close>).
\<close>

record ReaderState =
  Reader :: string
  CurrentState :: "32 word"
  EventState :: "32 word"

definition STATE_UNAWARE :: "32 word" where
  "STATE_UNAWARE = 0x0000"

definition STATE_PRESENT :: "32 word" where
  "STATE_PRESENT = 0x0020"

datatype timeout = INFINITE
datatype share_mode = SHARE_EXCLUSIVE
datatype protocol = PROTOCOL_ANY

text \<open>\<open>time.Second\<close>, in nanoseconds.\<close>

definition Second :: nat where
  "Second = 1000000000"

text \<open>
  What \<open>WaitForCard\<close> does to the outside, in order: a call of \<open>ctx.GetStatusChange\<close> with
  its argument and its answer (the error and the reader state as the call leaves it), a call
  of \<open>ctx.Connect\<close> with the card it returned (\<open>None\<close> is nil; the error is discarded by the
  code), a line on standard error, a sleep.
\<close>

datatype 'c pcsc_event =
    GetStatusChange_ev ReaderState timeout "string option" ReaderState
  | Connect_ev string share_mode protocol "'c option"
  | Stderr_ev string
  | Sleep_ev nat

record 'c session =
  events :: "'c pcsc_event list"
  card_field :: "'c option"

definition emit :: "'c pcsc_event \<Rightarrow> 'c session \<Rightarrow> 'c session" where
  "emit e s = s\<lparr>events := events s @ [e]\<rparr>"

text \<open>How a function ends: it returns to its caller, it ends the process with
  \<open>os.Exit\<close>, or it panics.\<close>

datatype 'a outcome = Returns 'a | Exits int | Panics

definition msg_card_not_found :: string where
  "msg_card_not_found = [CHR 0xE3, CHR 0x82, CHR 0xAB, CHR 0xE3, CHR 0x83, CHR 0xBC, CHR 0xE3,
     CHR 0x83, CHR 0x89, CHR 0xE3, CHR 0x81, CHR 0x8C, CHR 0xE8, CHR 0xA6, CHR 0x8B, CHR 0xE3,
     CHR 0x81, CHR 0xA4, CHR 0xE3, CHR 0x81, CHR 0x8B, CHR 0xE3, CHR 0x82, CHR 0x8A, CHR 0xE3,
     CHR 0x81, CHR 0xBE, CHR 0xE3, CHR 0x81, CHR 0x9B, CHR 0xE3, CHR 0x82, CHR 0x93, CHR 0xE3,
     CHR 0x80, CHR 0x82, CHR 0x0A]"

definition msg_error_prefix :: string where
  "msg_error_prefix = [CHR 0xE3, CHR 0x82, CHR 0xA8, CHR 0xE3, CHR 0x83, CHR 0xA9, CHR 0xE3,
     CHR 0x83, CHR 0xBC, CHR 0x3A, CHR 0x20]"

text \<open>
  The loop of \<open>WaitForCard\<close> (reader.go, lines 71 to 88) with the counter \<open>i\<close> and the reader
  state \<open>rs[0]\<close> as arguments. The PC/SC context is an arbitrary deterministic environment:
  the answers of \<open>GetStatusChange\<close> and \<open>Connect\<close> are functions of the events so far and of
  the arguments.
\<close>

function WaitForCard_loop :: "('c pcsc_event list \<Rightarrow> ReaderState \<Rightarrow> timeout \<Rightarrow> string option \<times> ReaderState)
    \<Rightarrow> ('c pcsc_event list \<Rightarrow> string \<Rightarrow> share_mode \<Rightarrow> protocol \<Rightarrow> 'c option)
    \<Rightarrow> string \<Rightarrow> nat \<Rightarrow> ReaderState \<Rightarrow> 'c session \<Rightarrow> 'c option outcome \<times> 'c session" where
  "WaitForCard_loop GetStatusChange Connect name i rs s =
     (if i < 3 then
        (case GetStatusChange (events s) rs INFINITE of
           (err, rs') \<Rightarrow>
             (let s1 = emit (GetStatusChange_ev rs INFINITE err rs') s
              in case err of
                   Some e \<Rightarrow> (Returns None, emit (Stderr_ev (msg_error_prefix @ e @ newline)) s1)
                 | None \<Rightarrow>
                     if EventState rs' AND STATE_PRESENT \<noteq> 0 then
                       (let card = Connect (events s1) name SHARE_EXCLUSIVE PROTOCOL_ANY;
                            s2 = (emit (Connect_ev name SHARE_EXCLUSIVE PROTOCOL_ANY card) s1)
                                   \<lparr>card_field := card\<rparr>
                        in (Returns card, s2))
                     else WaitForCard_loop GetStatusChange Connect name (i + 1) rs'
                            (emit (Sleep_ev (1 * Second))
                               (emit (Stderr_ev (''wait for card...'' @ newline)) s1))))
      else (Exits 1, emit (Stderr_ev msg_card_not_found) s))"
  by pat_completeness auto
termination
  by (relation "measure (\<lambda>(GetStatusChange, Connect, name, i, rs, s). 3 - i)") auto

declare WaitForCard_loop.simps [simp del]

definition WaitForCard :: "('c pcsc_event list \<Rightarrow> ReaderState \<Rightarrow> timeout \<Rightarrow> string option \<times> ReaderState)
    \<Rightarrow> ('c pcsc_event list \<Rightarrow> string \<Rightarrow> share_mode \<Rightarrow> protocol \<Rightarrow> 'c option)
    \<Rightarrow> string \<Rightarrow> 'c session \<Rightarrow> 'c option outcome \<times> 'c session" where
  "WaitForCard GetStatusChange Connect name s =
     WaitForCard_loop GetStatusChange Connect name 0
       \<lparr>Reader = name, CurrentState = STATE_UNAWARE, EventState = 0\<rparr> s"

fun is_poll :: "'c pcsc_event \<Rightarrow> bool" where
  "is_poll (GetStatusChange_ev rs t err rs') = True"
| "is_poll e = False"

text \<open>
  For stating the trace of \<open>WaitForCard\<close>: the events of one attempt that found no card
  (the poll with its argument and the state it left, the line on standard error, the sleep of
  one second), and the shape of a whole trace with at most \<open>n\<close> attempts.
\<close>

definition absent_round :: "ReaderState \<times> ReaderState \<Rightarrow> 'c pcsc_event list" where
  "absent_round r = [GetStatusChange_ev (fst r) INFINITE None (snd r),
                     Stderr_ev (''wait for card...'' @ newline), Sleep_ev (1 * Second)]"

definition wait_trace :: "string \<Rightarrow> nat \<Rightarrow> 'c option outcome \<Rightarrow> 'c pcsc_event list \<Rightarrow> bool" where
  "wait_trace name n out evs = (\<exists>rounds tail.
      evs = concat (map absent_round rounds) @ tail
    \<and> (\<forall>r \<in> set rounds. EventState (snd r) AND STATE_PRESENT = 0)
    \<and> (out = Exits 1 \<and> length rounds = n \<and> tail = [Stderr_ev msg_card_not_found]
       \<or> (\<exists>a e b. out = Returns None \<and> length rounds < n
             \<and> tail = [GetStatusChange_ev a INFINITE (Some e) b,
                        Stderr_ev (msg_error_prefix @ e @ newline)])
       \<or> (\<exists>a b card. out = Returns card \<and> length rounds < n
             \<and> EventState b AND STATE_PRESENT \<noteq> 0
             \<and> tail = [GetStatusChange_ev a INFINITE None b,
                        Connect_ev name SHARE_EXCLUSIVE PROTOCOL_ANY card])))"

subsection \<open>Example transports\<close>

text \<open>A reading of APDU texts for the examples: blanks are dropped and each pair of
  hexadecimal digits is one byte.\<close>

definition hexval :: "char \<Rightarrow> nat" where
  "hexval c = (let n = of_char c :: nat in
     if 48 \<le> n \<and> n \<le> 57 then n - 48
     else if 65 \<le> n \<and> n \<le> 70 then n - 55
     else if 97 \<le> n \<and> n \<le> 102 then n - 87 else 0)"

fun hexpairs :: "string \<Rightarrow> byte list" where
  "hexpairs (a # b # cs) = of_nat (16 * hexval a + hexval b) # hexpairs cs"
| "hexpairs cs = []"

definition ToBytes_hex :: "string \<Rightarrow> byte list" where
  "ToBytes_hex s = hexpairs (filter (\<lambda>c. c \<noteq> CHR '' '') s)"

definition w0 :: world where
  "w0 = \<lparr>exchanges = [], stdout = []\<rparr>"

text \<open>A card that answers every command with the status word \<open>90 00\<close> and no data.\<close>

definition card_empty_ok :: transmit where
  "card_empty_ok h cmd = Inr [0x90, 0x00]"

text \<open>A card that answers every command with the status word \<open>00 00\<close>.\<close>

definition card_zero_status :: transmit where
  "card_zero_status h cmd = Inr [0x00, 0x00]"

text \<open>A transport on which every transmission fails.\<close>

definition card_failing :: transmit where
  "card_failing h cmd = Inl ''transmit failed''"

text \<open>A card that answers a five-byte command with as many zero bytes as its last byte asks
  for, and the status word \<open>90 00\<close>.\<close>

definition card_exact :: transmit where
  "card_exact h cmd = Inr (replicate (requested (cmd ! 4)) 0 @ [0x90, 0x00])"

text \<open>A card that refuses every command with the status word \<open>6A 82\<close>.\<close>

definition card_refusing :: transmit where
  "card_refusing h cmd = Inr [0x6A, 0x82]"

text \<open>A reader that never sees a card (only the flag \<open>SCARD_STATE_EMPTY\<close> is set after each
  poll), and a \<open>Connect\<close> that fails.\<close>

definition pcsc_absent :: "nat pcsc_event list \<Rightarrow> ReaderState \<Rightarrow> timeout \<Rightarrow> string option \<times> ReaderState" where
  "pcsc_absent h rs t = (None, rs\<lparr>EventState := 0x0010\<rparr>)"

definition connect_none :: "nat pcsc_event list \<Rightarrow> string \<Rightarrow> share_mode \<Rightarrow> protocol \<Rightarrow> nat option" where
  "connect_none h name sm p = None"

definition s0 :: "nat session" where
  "s0 = \<lparr>events = [], card_field = None\<rparr>"

section \<open>Properties of the card session (reader.go)\<close>

subsection \<open>What \<open>Tx\<close> returns\<close>

lemma Tx_exchanges:
  "exchanges (snd (Tx verbose ToBytes Transmit apdu w)) =
     exchanges w @ [(ToBytes apdu, Transmit (exchanges w) (ToBytes apdu))]"
  by (simp add: Tx_def Let_def print_def split: sum.splits)

lemma Tx_fst:
  "fst (Tx verbose ToBytes Transmit apdu w) =
    (case Transmit (exchanges w) (ToBytes apdu) of
       Inl err \<Rightarrow> (0, 0, [])
     | Inr res \<Rightarrow> if length res = 2 then (res ! 0, res ! 1, [])
                  else if length res > 2 then (res ! (length res - 2), res ! (length res - 1), take (length res - 2) res)
                  else (0, 0, []))"
  by (simp add: Tx_def Let_def print_def split: sum.splits)

lemma Tx_stdout_err:
  "Transmit (exchanges w) (ToBytes apdu) = Inl err \<Longrightarrow>
   stdout (snd (Tx verbose ToBytes Transmit apdu w)) =
     stdout w @ (if verbose then ''>> '' @ apdu @ newline else []) @ ''err: '' @ err @ newline"
  by (simp add: Tx_def Let_def print_def)

lemma Tx_fst_data:
  assumes "Transmit (exchanges w) (ToBytes apdu) = Inr (data @ [s1, s2])"
  shows "fst (Tx verbose ToBytes Transmit apdu w) = (s1, s2, data)"
  by (cases data) (simp_all add: Tx_fst assms nth_append)

text \<open>
  Claim C4, as the code has it. Whatever the card answers to the command that \<open>Tx\<close>
  transmits: a response of exactly two bytes is returned as the status word with no data; a
  longer response is split into its last two bytes, the status word, and the bytes before
  them, the data; a response of fewer than two bytes gives the status word \<open>00 00\<close> and no
  data. When the transmission itself fails, \<open>Tx\<close> returns the status word \<open>00 00\<close> and no
  data as well, and the only trace of the error is the line \<open>err: ...\<close> on standard output.
\<close>

theorem Tx_status_word:
  fixes Transmit :: transmit
  assumes "Transmit (exchanges w) (ToBytes apdu) = r"
  shows "(\<forall>s1 s2. r = Inr [s1, s2] \<longrightarrow> fst (Tx verbose ToBytes Transmit apdu w) = (s1, s2, []))
    \<and> (\<forall>d data s1 s2. r = Inr (d # data @ [s1, s2]) \<longrightarrow>
          fst (Tx verbose ToBytes Transmit apdu w) = (s1, s2, d # data))
    \<and> (\<forall>res. r = Inr res \<and> length res < 2 \<longrightarrow> fst (Tx verbose ToBytes Transmit apdu w) = (0, 0, []))
    \<and> (\<forall>err. r = Inl err \<longrightarrow>
          fst (Tx verbose ToBytes Transmit apdu w) = (0, 0, [])
          \<and> stdout (snd (Tx verbose ToBytes Transmit apdu w)) =
             stdout w @ (if verbose then ''>> '' @ apdu @ newline else []) @ ''err: '' @ err @ newline)"
proof (intro conjI allI impI)
  fix s1 s2 assume "r = Inr [s1, s2]"
  with assms show "fst (Tx verbose ToBytes Transmit apdu w) = (s1, s2, [])"
    by (simp add: Tx_fst)
next
  fix d data s1 s2 assume "r = Inr (d # data @ [s1, s2])"
  with assms have a: "Transmit (exchanges w) (ToBytes apdu) = Inr (d # data @ [s1, s2])" by simp
  show "fst (Tx verbose ToBytes Transmit apdu w) = (s1, s2, d # data)"
    by (simp add: Tx_fst a nth_append)
next
  fix res assume "r = Inr res \<and> length res < 2"
  with assms show "fst (Tx verbose ToBytes Transmit apdu w) = (0, 0, [])"
    by (auto simp add: Tx_fst split: sum.splits)
next
  fix err assume "r = Inl err"
  with assms show "fst (Tx verbose ToBytes Transmit apdu w) = (0, 0, [])"
    by (auto simp add: Tx_fst split: sum.splits)
next
  fix err assume "r = Inl err"
  with assms show "stdout (snd (Tx verbose ToBytes Transmit apdu w)) =
             stdout w @ (if verbose then ''>> '' @ apdu @ newline else []) @ ''err: '' @ err @ newline"
    using Tx_stdout_err [of Transmit w ToBytes apdu err verbose] by simp
qed

theorem Tx_status_word_witness:
  "fst (Tx False ToBytes_hex card_refusing ''00 B0 00 00 10'' w0) = (0x6A, 0x82, [])
   \<and> fst (Tx False ToBytes_hex card_exact ''00 B0 00 00 02'' w0) = (0x90, 0x00, [0x00, 0x00])
   \<and> fst (Tx False ToBytes_hex (\<lambda>h cmd. Inr [0x90]) ''00 B0 00 00 02'' w0) = (0, 0, [])
   \<and> fst (Tx False ToBytes_hex card_failing ''00 B0 00 00 02'' w0) = (0, 0, [])
   \<and> stdout (snd (Tx False ToBytes_hex card_failing ''00 B0 00 00 02'' w0))
        = ''err: transmit failed'' @ newline"
proof -
  have a: "card_refusing (exchanges w0) (ToBytes_hex ''00 B0 00 00 10'') = Inr [0x6A, 0x82]"
    by (simp add: card_refusing_def)
  have b: "card_exact (exchanges w0) (ToBytes_hex ''00 B0 00 00 02'') = Inr (0x00 # [0x00] @ [0x90, 0x00])"
    by code_simp
  have c: "(\<lambda>h cmd. Inr [0x90]) (exchanges w0) (ToBytes_hex ''00 B0 00 00 02'')
             = (Inr [0x90] :: response)"
    by simp
  have d: "card_failing (exchanges w0) (ToBytes_hex ''00 B0 00 00 02'') = Inl ''transmit failed''"
    by (simp add: card_failing_def)
  show ?thesis
    using Tx_status_word [of card_refusing w0 ToBytes_hex "''00 B0 00 00 10''" _ False, OF a]
      Tx_status_word [of card_exact w0 ToBytes_hex "''00 B0 00 00 02''" _ False, OF b]
      Tx_status_word [of "\<lambda>h cmd. Inr [0x90]" w0 ToBytes_hex "''00 B0 00 00 02''" _ False, OF c]
      Tx_status_word [of card_failing w0 ToBytes_hex "''00 B0 00 00 02''" _ False, OF d]
    by (simp add: w0_def)
qed

text \<open>
  Claim C4 as stated fails in its last part: the caller of \<open>Tx\<close> gets the same triple when
  the transmission fails as when the card answers with the status word \<open>00 00\<close>.
\<close>

theorem Tx_error_swallowed:
  "fst (Tx False ToBytes_hex card_failing ''00 B0 00 00 01'' w0)
     = fst (Tx False ToBytes_hex card_zero_status ''00 B0 00 00 01'' w0)"
  by (simp add: Tx_fst card_failing_def card_zero_status_def)

declare ReadBinary_loop.simps [code]

subsection \<open>A failed page aborts the read\<close>

lemma status_not_ok_Tx:
  assumes "\<not> status_ok (Transmit (exchanges w) (ToBytes apdu))"
      and "Tx verbose ToBytes Transmit apdu w = ((sw1, sw2, data), w')"
  shows "sw1 \<noteq> 0x90 \<or> sw2 \<noteq> 0x00"
proof -
  have "fst (Tx verbose ToBytes Transmit apdu w) = (sw1, sw2, data)" using assms(2) by simp
  then show ?thesis using assms(1)
    by (auto simp: Tx_fst status_ok_def split: sum.splits if_splits)
qed

text \<open>
  Claim C3. At every position of the paging loop, for every size and whatever has been
  accumulated so far: when the card's answer to the READ BINARY command of that position is
  not a success (a status word other than \<open>90 00\<close>, a response too short to hold one, or a
  failed transmission), the read returns at once, after that one exchange, and what it
  returns is nil, not the bytes accumulated.
\<close>

theorem ReadBinary_aborts_without_data:
  assumes "pos < sz"
      and "\<not> status_ok (Transmit (exchanges w) (ToBytes (ReadBinary_apdu pos (chunk_len sz pos))))"
  shows "\<exists>w'. ReadBinary_loop verbose ToBytes Transmit sz pos res w = Some ([], w')
           \<and> exchanges w' = exchanges w @
                [(ToBytes (ReadBinary_apdu pos (chunk_len sz pos)),
                  Transmit (exchanges w) (ToBytes (ReadBinary_apdu pos (chunk_len sz pos))))]"
proof -
  let ?apdu = "ReadBinary_apdu pos (chunk_len sz pos)"
  obtain sw1 sw2 data w' where tx: "Tx verbose ToBytes Transmit ?apdu w = ((sw1, sw2, data), w')"
    by (metis prod.exhaust)
  have bad: "sw1 \<noteq> 0x90 \<or> sw2 \<noteq> 0x00" using status_not_ok_Tx [OF assms(2) tx] .
  have "ReadBinary_loop verbose ToBytes Transmit sz pos res w = Some ([], w')"
    using assms(1) tx bad by (subst ReadBinary_loop.simps) auto
  moreover have "exchanges w' = exchanges w @ [(ToBytes ?apdu, Transmit (exchanges w) (ToBytes ?apdu))]"
    using Tx_exchanges [of verbose ToBytes Transmit ?apdu w] tx by simp
  ultimately show ?thesis by blast
qed

theorem ReadBinary_aborts_without_data_witness:
  "(256 :: uint16) < 300
   \<and> \<not> status_ok (card_refusing (exchanges w0) (ToBytes_hex (ReadBinary_apdu 256 (chunk_len 300 256))))
   \<and> (\<exists>w'. ReadBinary_loop False ToBytes_hex card_refusing 300 256 (replicate 256 0x41) w0 = Some ([], w')
           \<and> exchanges w' = exchanges w0 @
                [(ToBytes_hex (ReadBinary_apdu 256 (chunk_len 300 256)),
                  card_refusing (exchanges w0) (ToBytes_hex (ReadBinary_apdu 256 (chunk_len 300 256))))])"
proof -
  have a: "(256 :: uint16) < 300" by simp
  have b: "\<not> status_ok (card_refusing (exchanges w0)
              (ToBytes_hex (ReadBinary_apdu 256 (chunk_len 300 256))))"
    by (simp add: status_ok_def card_refusing_def)
  show ?thesis
    using a b ReadBinary_aborts_without_data
        [of 256 300 card_refusing w0 ToBytes_hex False "replicate 256 0x41", OF a b] by blast
qed

subsection \<open>A card that returns no data\<close>

lemma ReadBinary_loop_stuck:
  assumes "ReadBinary_loop verbose ToBytes Transmit sz pos res w = Some y"
  shows "\<not> (Transmit = card_empty_ok \<and> pos < sz)"
proof (rule ReadBinary_loop.raw_induct
    [where P = "\<lambda>v tb T s p r w y. \<not> (T = card_empty_ok \<and> p < s)", OF _ assms])
  fix f :: "bool \<Rightarrow> (string \<Rightarrow> byte list) \<Rightarrow> transmit \<Rightarrow> uint16 \<Rightarrow> uint16 \<Rightarrow> byte list \<Rightarrow> world
    \<Rightarrow> (byte list \<times> world) option"
  fix v tb T s p r w y
  assume IH: "\<And>v tb T s p r w y. f v tb T s p r w = Some y \<Longrightarrow> \<not> (T = card_empty_ok \<and> p < s)"
  assume unfolded: "(if p < s then
        (case Tx v tb T (ReadBinary_apdu p (chunk_len s p)) w of
           ((sw1, sw2, data), w') \<Rightarrow>
             if sw1 \<noteq> 0x90 \<or> sw2 \<noteq> 0x00 then Some ([], w')
             else f v tb T s (p + of_nat (length data)) (r @ data) w')
      else Some (r, w)) = Some y"
  show "\<not> (T = card_empty_ok \<and> p < s)"
  proof
    assume a: "T = card_empty_ok \<and> p < s"
    obtain t w' where t: "Tx v tb T (ReadBinary_apdu p (chunk_len s p)) w = (t, w')"
      by (cases "Tx v tb T (ReadBinary_apdu p (chunk_len s p)) w")
    have "t = (0x90, 0x00, [])"
      using Tx_fst [of v tb T "ReadBinary_apdu p (chunk_len s p)" w] a t
      by (simp add: card_empty_ok_def)
    with unfolded a t have "f v tb T s p r w' = Some y"
      by simp
    from IH [OF this] a show False by simp
  qed
qed

text \<open>
  Claim C10 fails on the code. A card that answers READ BINARY with the status word \<open>90 00\<close>
  and no data leaves the running position where it was, and the loop sends the same command
  again, for ever: a read of one byte from such a card never returns.
\<close>

theorem ReadBinary_never_returns:
  "ReadBinary False ToBytes_hex card_empty_ok 1 w0 = None"
proof (cases "ReadBinary False ToBytes_hex card_empty_ok 1 w0")
  case (Some y)
  then show ?thesis
    using ReadBinary_loop_stuck [of False ToBytes_hex card_empty_ok 1 0 "[]" w0 y]
    by (simp add: ReadBinary_def)
qed simp

subsection \<open>The commands of a complete read\<close>

lemma hexdigits_lt16: "n < 16 \<Longrightarrow> hexdigits n = [hexdigit n]"
  by (subst hexdigits.simps) simp

lemma hexdigits_lt256: "16 \<le> n \<Longrightarrow> n < 256 \<Longrightarrow> hexdigits n = [hexdigit (n div 16), hexdigit (n mod 16)]"
  by (subst hexdigits.simps) (simp add: hexdigits_lt16 less_mult_imp_div_less)

lemma fmt02X_byte: "n < 256 \<Longrightarrow> fmt02X n = [hexdigit (n div 16), hexdigit (n mod 16)]"
proof (cases "n < 16")
  case True
  then show ?thesis by (simp add: fmt02X_def hexdigits_lt16 hexdigit_def)
next
  case False
  assume "n < 256"
  with False show ?thesis by (simp add: fmt02X_def hexdigits_lt256)
qed

lemma lt16_cases: "n < 16 \<Longrightarrow> n \<in> {0,1,2,3,4,5,6,7,8,9,10,11,12,13,14,15::nat}"
  by simp arith

lemma hexval_hexdigit: "n < 16 \<Longrightarrow> hexval (hexdigit n) = n"
  by (drule lt16_cases) (auto simp: hexval_def hexdigit_def)

lemma hexdigit_not_blank: "n < 16 \<Longrightarrow> hexdigit n \<noteq> CHR '' ''"
  by (drule lt16_cases) (auto simp: hexdigit_def)

lemma hexpairs_fmt: "n < 256 \<Longrightarrow> hexpairs (fmt02X n @ cs) = of_nat n # hexpairs cs"
  by (simp add: fmt02X_byte hexval_hexdigit)

lemma hexpairs_fmt_last: "n < 256 \<Longrightarrow> hexpairs (fmt02X n) = [of_nat n]"
  using hexpairs_fmt [of n "[]"] by simp

lemma filter_fmt: "n < 256 \<Longrightarrow> filter (\<lambda>c. c \<noteq> CHR '' '') (fmt02X n) = fmt02X n"
  by (simp add: fmt02X_byte hexdigit_not_blank)

lemma unat_hi: "unat (drop_bit 8 (pos :: uint16) AND 0xFF) < 256"
proof -
  have "unat (drop_bit 8 pos AND 0xFF) \<le> unat (0xFF :: uint16)"
    by (rule word_and_le1 [THEN word_le_nat_alt [THEN iffD1]])
  then show ?thesis by simp
qed

lemma unat_lo: "unat ((pos :: uint16) AND 0xFF) < 256"
proof -
  have "unat (pos AND 0xFF) \<le> unat (0xFF :: uint16)"
    by (rule word_and_le1 [THEN word_le_nat_alt [THEN iffD1]])
  then show ?thesis by simp
qed

lemma mask8: "(0xFF :: uint16) = mask 8"
  by (simp add: mask_eq_exp_minus_1)

lemma of_nat_hi: "(ucast (drop_bit 8 (pos :: uint16) AND 0xFF) :: byte) = ucast (drop_bit 8 pos)"
  unfolding mask8 by (rule bit_word_eqI) (auto simp: bit_simps)

lemma of_nat_lo: "(ucast ((pos :: uint16) AND 0xFF) :: byte) = ucast pos"
  unfolding mask8 by (rule bit_word_eqI) (auto simp: bit_simps)

lemma ToBytes_hex_ReadBinary_apdu:
  "ToBytes_hex (ReadBinary_apdu pos l) = [0x00, 0xB0, ucast (drop_bit 8 pos), ucast pos, l]"
proof -
  have l: "unat l < 256" using unsigned_less [of l, where ?'a = nat] by simp
  show ?thesis
    unfolding ToBytes_hex_def ReadBinary_apdu_def
    by (simp add: filter_fmt unat_hi unat_lo l hexpairs_fmt hexpairs_fmt_last of_nat_hi of_nat_lo hexval_def)
qed

lemma requested_chunk_len:
  assumes "unat pos < unat sz"
  shows "requested (chunk_len sz pos) = min 256 (unat sz - unat pos)"
proof -
  have le: "pos \<le> sz" using assms by (simp add: word_le_nat_alt)
  have sub: "unat (sz - pos) = unat sz - unat pos" using le by (simp add: unat_sub)
  have cmp: "(0xFF < sz - pos) = (255 < unat sz - unat pos)"
    by (simp add: word_less_nat_alt sub)
  show ?thesis
  proof (cases "255 < unat sz - unat pos")
    case True
    then show ?thesis by (simp add: chunk_len_def cmp requested_def)
  next
    case False
    then have small: "unat (sz - pos) < 256" using sub by simp
    have "unat (ucast (sz - pos) :: byte) = unat (sz - pos)"
      using small by (simp add: unsigned_ucast_eq take_bit_nat_eq_self)
    moreover have "unat (sz - pos) \<noteq> 0" using sub assms by simp
    ultimately show ?thesis using False sub
      by (auto simp add: chunk_len_def cmp requested_def unat_eq_0)
  qed
qed

lemma hi_byte:
  assumes "unat (pos :: uint16) = 256 * j"
  shows "(ucast (drop_bit 8 pos) :: byte) = of_nat j"
proof -
  have "256 * j < 65536" using unsigned_less [of pos, where ?'a = nat] assms by simp
  then have j: "j < 256" by simp
  have "unat (ucast (drop_bit 8 pos) :: byte) = j"
    using j by (simp add: unsigned_ucast_eq unat_drop_bit_eq assms take_bit_eq_mod drop_bit_eq_div unat_div)
  moreover have "unat (of_nat j :: byte) = j" using j by (simp add: unat_of_nat)
  ultimately show ?thesis by (simp add: word_unat_eq_iff)
qed

lemma lo_byte:
  assumes "unat (pos :: uint16) = 256 * j"
  shows "(ucast pos :: byte) = 0"
proof -
  have "unat (ucast pos :: byte) = 0"
    by (simp add: unsigned_ucast_eq assms take_bit_eq_mod)
  then show ?thesis by (simp add: unat_eq_0)
qed

lemma unat_advance:
  assumes "unat (pos :: uint16) + n \<le> unat (sz :: uint16)"
  shows "unat (pos + of_nat n) = unat pos + n"
proof -
  have "unat sz < 65536" using unsigned_less [of sz, where ?'a = nat] by simp
  with assms have "unat pos + n < 65536" by simp
  then show ?thesis by (simp add: unat_word_ariths unat_of_nat)
qed

lemma page_command_at:
  assumes "unat (pos :: uint16) = 256 * j"
  shows "[0x00, 0xB0, ucast (drop_bit 8 pos), ucast pos, chunk_len sz pos] = page_command sz j"
proof -
  have "of_nat (unat pos) = pos" by simp
  then have "pos = of_nat (256 * j)" using assms by metis
  then show ?thesis
    unfolding page_command_def using hi_byte [OF assms] lo_byte [OF assms] by simp
qed

lemma ReadBinary_loop_exact:
  fixes Transmit :: transmit
  assumes tb: "\<And>pos l. ToBytes (ReadBinary_apdu pos l)
                 = [0x00, 0xB0, ucast (drop_bit 8 pos), ucast pos, l]"
      and exact: "\<And>h p1 p2 l. \<exists>data. Transmit h [0x00, 0xB0, p1, p2, l] = Inr (data @ [0x90, 0x00])
                 \<and> length data = requested l"
  shows "unat pos = 256 * j \<Longrightarrow> unat pos < unat sz \<Longrightarrow>
     \<exists>out w' xs. ReadBinary_loop verbose ToBytes Transmit sz pos res w = Some (out, w')
        \<and> length out = length res + (unat sz - unat pos)
        \<and> exchanges w' = exchanges w @ xs
        \<and> map fst xs = map (page_command sz) [j..<pages sz]"
proof (induction "unat sz - unat pos" arbitrary: pos j res w rule: less_induct)
  case less
  let ?apdu = "ReadBinary_apdu pos (chunk_len sz pos)"
  let ?cmd = "page_command sz j"
  have cmd: "ToBytes ?apdu = ?cmd"
    using tb [of pos "chunk_len sz pos"] page_command_at [OF less.prems(1), of sz] by simp
  obtain data where data: "Transmit (exchanges w) (ToBytes ?apdu) = Inr (data @ [0x90, 0x00])"
      and len: "length data = requested (chunk_len sz pos)"
    using exact [of "exchanges w" "ucast (drop_bit 8 pos)" "ucast pos" "chunk_len sz pos"]
      tb [of pos "chunk_len sz pos"] by auto
  have L: "length data = min 256 (unat sz - unat pos)"
    using len requested_chunk_len [OF less.prems(2)] by simp
  obtain w1 where tx: "Tx verbose ToBytes Transmit ?apdu w = ((0x90, 0x00, data), w1)"
    using Tx_fst_data [of Transmit w ToBytes ?apdu data "0x90" "0x00" verbose] data by (cases "Tx verbose ToBytes Transmit ?apdu w") simp
  have ex1: "exchanges w1 = exchanges w @ [(?cmd, Inr (data @ [0x90, 0x00]))]"
    using Tx_exchanges [of verbose ToBytes Transmit ?apdu w] tx data cmd by simp
  have lt: "pos < sz" using less.prems(2) by (simp add: word_less_nat_alt)
  have step: "ReadBinary_loop verbose ToBytes Transmit sz pos res w
      = ReadBinary_loop verbose ToBytes Transmit sz (pos + of_nat (length data)) (res @ data) w1"
    by (subst ReadBinary_loop.simps) (simp add: lt tx)
  have adv: "unat (pos + of_nat (length data)) = unat pos + length data"
    by (rule unat_advance [of pos "length data" sz]) (use L less.prems(2) in simp)
  have jn: "j < pages sz" using less.prems unfolding pages_def by simp
  show ?case
  proof (cases "unat pos + length data < unat sz")
    case True
    then have L256: "length data = 256" using L by simp
    have p1: "unat (pos + of_nat (length data)) = 256 * Suc j"
      using adv L256 less.prems(1) by simp
    have p2: "unat (pos + of_nat (length data)) < unat sz" using adv True by simp
    have m: "unat sz - unat (pos + of_nat (length data)) < unat sz - unat pos"
      using adv L256 less.prems(2) by simp
    from less.hyps [OF m p1 p2, of "res @ data" w1]
    obtain out w' xs where
      r: "ReadBinary_loop verbose ToBytes Transmit sz (pos + of_nat (length data)) (res @ data) w1
            = Some (out, w')"
      and lo: "length out = length (res @ data) + (unat sz - unat (pos + of_nat (length data)))"
      and ex: "exchanges w' = exchanges w1 @ xs"
      and cs: "map fst xs = map (page_command sz) [Suc j..<pages sz]"
      by blast
    have f0: "ReadBinary_loop verbose ToBytes Transmit sz pos res w = Some (out, w')"
      using step r by simp
    have f1: "length out = length res + (unat sz - unat pos)" using lo adv True by simp
    have f2: "exchanges w' = exchanges w @ ((?cmd, Inr (data @ [0x90, 0x00])) # xs)"
      using ex ex1 by simp
    have f3: "map fst ((?cmd, Inr (data @ [0x90, 0x00])) # xs) = map (page_command sz) [j..<pages sz]"
      using cs jn by (simp add: upt_conv_Cons)
    show ?thesis by (intro exI conjI) (rule f0, rule f1, rule f2, rule f3)
  next
    case False
    then have Lrest: "length data = unat sz - unat pos" using L by simp
    then have "unat (pos + of_nat (length data)) = unat sz" using adv less.prems(2) by simp
    then have fin: "\<not> pos + of_nat (length data) < sz" by (simp add: word_less_nat_alt)
    have r: "ReadBinary_loop verbose ToBytes Transmit sz (pos + of_nat (length data)) (res @ data) w1
        = Some (res @ data, w1)"
      by (subst ReadBinary_loop.simps) (simp add: fin)
    have "unat sz - unat pos \<le> 256" using L Lrest by simp
    then have "pages sz = Suc j" using less.prems unfolding pages_def by simp
    then have f3: "map fst [(?cmd, Inr (data @ [0x90, 0x00]) :: response)] = map (page_command sz) [j..<pages sz]"
      by simp
    have f1: "length (res @ data) = length res + (unat sz - unat pos)" using Lrest by simp
    have f0: "ReadBinary_loop verbose ToBytes Transmit sz pos res w = Some (res @ data, w1)"
      using step r by simp
    show ?thesis by (intro exI conjI) (rule f0, rule f1, rule ex1, rule f3)
  qed
qed

lemma sum_pages: "(\<Sum>k<(N + 255) div 256. min 256 (N - 256 * k)) = (N::nat)"
proof (induction N rule: less_induct)
  case (less N)
  show ?case
  proof (cases "N \<le> 256")
    case True
    show ?thesis
    proof (cases "N = 0")
      case True then show ?thesis by simp
    next
      case False
      with \<open>N \<le> 256\<close> have "(N + 255) div 256 = 1" by simp
      then show ?thesis using \<open>N \<le> 256\<close> by simp
    qed
  next
    case False
    then have n: "(N + 255) div 256 = Suc ((N - 256 + 255) div 256)" by simp
    have "(\<Sum>k<(N + 255) div 256. min 256 (N - 256 * k))
        = min 256 N + (\<Sum>k<(N - 256 + 255) div 256. min 256 (N - 256 * Suc k))"
      unfolding n sum.lessThan_Suc_shift by simp
    also have "\<dots> = 256 + (\<Sum>k<(N - 256 + 255) div 256. min 256 ((N - 256) - 256 * k))"
      using False by simp
    also have "\<dots> = 256 + (N - 256)" using less [of "N - 256"] False by simp
    finally show ?thesis using False by simp
  qed
qed

lemma requested_page:
  assumes "k < pages sz"
  shows "requested (chunk_len sz (of_nat (256 * k))) = min 256 (unat sz - 256 * k)"
proof -
  have lt: "256 * k < unat sz" using assms unfolding pages_def by simp
  have "unat sz < 65536" using unsigned_less [of sz, where ?'a = nat] by simp
  with lt have "unat (of_nat (256 * k) :: uint16) = 256 * k"
    by (simp add: unat_of_nat del: of_nat_mult)
  then show ?thesis using requested_chunk_len [of "of_nat (256 * k)" sz] lt by simp
qed

lemma requested_sum: "(\<Sum>k<pages sz. requested (chunk_len sz (of_nat (256 * k)))) = unat sz"
proof -
  have "(\<Sum>k<pages sz. requested (chunk_len sz (of_nat (256 * k))))
      = (\<Sum>k<pages sz. min 256 (unat sz - 256 * k))"
    by (rule sum.cong) (simp_all add: requested_page del: of_nat_mult)
  then show ?thesis using sum_pages [of "unat sz"] by (simp add: pages_def)
qed

text \<open>
  Claim C1, as the code has it. Let the helper \<open>ToBytes\<close> read the text of a READ BINARY
  command as its five bytes, and let every READ BINARY be answered with the status word
  \<open>90 00\<close> and exactly as many data bytes as its length byte asks for (256 for the length byte
  0). Then a read of \<open>sz\<close> bytes returns \<open>sz\<close> bytes after sending \<open>ceil(sz / 256)\<close> commands
  and no other: the command of page \<open>k\<close> has class \<open>00\<close>, instruction \<open>B0\<close>, the offset
  \<open>256 * k\<close> as a 16-bit value with the high byte in the first parameter byte and the low
  byte in the second, so the offsets increase from page to page, and the length byte of
  \<open>chunk_len\<close>; the lengths asked for sum to \<open>sz\<close>; and wherever exactly 256 bytes remain the
  length byte is 0.
\<close>

theorem ReadBinary_pages:
  fixes Transmit :: transmit
  assumes tb: "\<forall>pos l. ToBytes (ReadBinary_apdu pos l)
                 = [0x00, 0xB0, ucast (drop_bit 8 pos), ucast pos, l]"
      and exact: "\<forall>h p1 p2 l. \<exists>data. Transmit h [0x00, 0xB0, p1, p2, l] = Inr (data @ [0x90, 0x00])
                 \<and> length data = requested l"
  shows "\<exists>res w' xs. ReadBinary verbose ToBytes Transmit sz w = Some (res, w')
      \<and> length res = unat sz
      \<and> exchanges w' = exchanges w @ xs
      \<and> map fst xs = map (page_command sz) [0..<pages sz]
      \<and> (\<Sum>k<pages sz. requested (chunk_len sz (of_nat (256 * k)))) = unat sz
      \<and> (\<forall>pos. sz - pos = 256 \<longrightarrow> chunk_len sz pos = 0)"
proof (cases "sz = 0")
  case True
  have "ReadBinary verbose ToBytes Transmit sz w = Some ([], w)"
    unfolding ReadBinary_def by (subst ReadBinary_loop.simps) (simp add: True)
  moreover have "pages sz = 0" by (simp add: True pages_def)
  ultimately show ?thesis using requested_sum [of sz] by (simp add: True chunk_len_def)
next
  case False
  then have pos: "unat (0 :: uint16) < unat sz" by (simp add: unat_gt_0)
  have z: "unat (0 :: uint16) = 256 * 0" by simp
  from ReadBinary_loop_exact [of ToBytes Transmit 0 0 sz verbose "[]" w, OF _ _ z pos] tb exact
  obtain out w' xs where
      r: "ReadBinary_loop verbose ToBytes Transmit sz 0 [] w = Some (out, w')"
      and lo: "length out = length ([] :: byte list) + (unat sz - unat (0 :: uint16))"
      and ex: "exchanges w' = exchanges w @ xs"
      and cs: "map fst xs = map (page_command sz) [0..<pages sz]"
    by blast
  have f0: "ReadBinary verbose ToBytes Transmit sz w = Some (out, w')" using r by (simp add: ReadBinary_def)
  have f1: "length out = unat sz" using lo by simp
  have f5: "\<forall>pos. sz - pos = 256 \<longrightarrow> chunk_len sz pos = 0" by (simp add: chunk_len_def)
  show ?thesis by (intro exI conjI) (rule f0, rule f1, rule ex, rule cs, rule requested_sum, rule f5)
qed

theorem ReadBinary_pages_witness:
  "(\<forall>pos l. ToBytes_hex (ReadBinary_apdu pos l) = [0x00, 0xB0, ucast (drop_bit 8 pos), ucast pos, l])
   \<and> (\<forall>h p1 p2 l. \<exists>data. card_exact h [0x00, 0xB0, p1, p2, l] = Inr (data @ [0x90, 0x00])
          \<and> length data = requested l)
   \<and> (\<exists>res w' xs. ReadBinary False ToBytes_hex card_exact 300 w0 = Some (res, w')
      \<and> length res = unat (300 :: uint16)
      \<and> exchanges w' = exchanges w0 @ xs
      \<and> map fst xs = map (page_command 300) [0..<pages 300]
      \<and> (\<Sum>k<pages 300. requested (chunk_len 300 (of_nat (256 * k)))) = unat (300 :: uint16)
      \<and> (\<forall>pos. (300 :: uint16) - pos = 256 \<longrightarrow> chunk_len 300 pos = 0))"
proof -
  have tb: "\<forall>pos l. ToBytes_hex (ReadBinary_apdu pos l) = [0x00, 0xB0, ucast (drop_bit 8 pos), ucast pos, l]"
    by (simp add: ToBytes_hex_ReadBinary_apdu)
  have exact: "\<forall>h p1 p2 l. \<exists>data. card_exact h [0x00, 0xB0, p1, p2, l] = Inr (data @ [0x90, 0x00])
          \<and> length data = requested l"
    by (simp add: card_exact_def)
  show ?thesis using tb exact ReadBinary_pages [OF tb exact, of False 300 w0] by blast
qed

text \<open>
  Claim C1 as stated fails: pages hold up to 256 bytes, not 255. A read of 256 bytes from a
  card that returns what is asked for sends one command, with the length byte 0 that asks
  for 256 bytes, where the claim counts \<open>ceil(256 / 255) = 2\<close> commands of at most 255 bytes.
\<close>

theorem ReadBinary_256_single_command:
  "ReadBinary False ToBytes_hex card_exact 256 w0
     = Some (replicate 256 0,
         \<lparr>exchanges = [([0x00, 0xB0, 0x00, 0x00, 0x00], Inr (replicate 256 0 @ [0x90, 0x00]))],
          stdout = []\<rparr>)
   \<and> requested 0x00 = 256 \<and> (256 + (255 - 1)) div 255 = (2 :: nat)"
  by code_simp

subsection \<open>Waiting for the card\<close>

lemma events_emit [simp]: "events (emit e s) = events s @ [e]"
  by (simp add: emit_def)

lemma WaitForCard_loop_bound:
  "\<exists>evs. events (snd (WaitForCard_loop G C name i rs s)) = events s @ evs
      \<and> length (filter is_poll evs) \<le> 3 - i
      \<and> (\<forall>c. fst (WaitForCard_loop G C name i rs s) = Exits c \<longrightarrow>
             c = 1 \<and> length (filter is_poll evs) = 3 - i)"
proof (induction G C name i rs s rule: WaitForCard_loop.induct)
  case (1 G C name i rs s)
  show ?case
  proof (cases "i < 3")
    case False
    then show ?thesis by (subst (1 2) WaitForCard_loop.simps) simp
  next
    case True
    obtain err rs' where g: "G (events s) rs INFINITE = (err, rs')" by (metis prod.exhaust)
    let ?s1 = "emit (GetStatusChange_ev rs INFINITE err rs') s"
    show ?thesis
    proof (cases err)
      case (Some e)
      have "WaitForCard_loop G C name i rs s
             = (Returns None, emit (Stderr_ev (msg_error_prefix @ e @ newline)) ?s1)"
        by (subst WaitForCard_loop.simps) (simp add: True g Some)
      then show ?thesis using True by simp
    next
      case None
      show ?thesis
      proof (cases "EventState rs' AND STATE_PRESENT \<noteq> 0")
        case present: True
        let ?card = "C (events ?s1) name SHARE_EXCLUSIVE PROTOCOL_ANY"
        have "WaitForCard_loop G C name i rs s
             = (Returns ?card, (emit (Connect_ev name SHARE_EXCLUSIVE PROTOCOL_ANY ?card) ?s1)
                                   \<lparr>card_field := ?card\<rparr>)"
          by (subst WaitForCard_loop.simps) (simp add: True g None present Let_def)
        then show ?thesis using True by simp
      next
        case absent: False
        let ?s3 = "emit (Sleep_ev (1 * Second)) (emit (Stderr_ev (''wait for card...'' @ newline)) ?s1)"
        have step: "WaitForCard_loop G C name i rs s = WaitForCard_loop G C name (i + 1) rs' ?s3"
          by (subst WaitForCard_loop.simps) (use absent in \<open>simp add: True g None Let_def\<close>)
        from "1.IH" [OF True g [symmetric] refl None _ ] absent
        obtain evs where
          a: "events (snd (WaitForCard_loop G C name (i + 1) rs' ?s3)) = events ?s3 @ evs"
          and b: "length (filter is_poll evs) \<le> 3 - (i + 1)"
          and c: "\<forall>c. fst (WaitForCard_loop G C name (i + 1) rs' ?s3) = Exits c \<longrightarrow>
             c = 1 \<and> length (filter is_poll evs) = 3 - (i + 1)"
          by auto
        let ?evs = "[GetStatusChange_ev rs INFINITE err rs', Stderr_ev (''wait for card...'' @ newline),
                     Sleep_ev (1 * Second)] @ evs"
        have "events (snd (WaitForCard_loop G C name i rs s)) = events s @ ?evs"
          using a step by simp
        moreover have "length (filter is_poll ?evs) \<le> 3 - i" using b True by simp
        moreover have "\<forall>c. fst (WaitForCard_loop G C name i rs s) = Exits c \<longrightarrow>
             c = 1 \<and> length (filter is_poll ?evs) = 3 - i"
        proof (intro allI impI)
          fix c' assume "fst (WaitForCard_loop G C name i rs s) = Exits c'"
          then have "fst (WaitForCard_loop G C name (i + 1) rs' ?s3) = Exits c'"
            by (simp only: step)
          with c have "c' = 1 \<and> length (filter is_poll evs) = 3 - (i + 1)" by blast
          then show "c' = 1 \<and> length (filter is_poll ?evs) = 3 - i" using True by simp
        qed
        ultimately show ?thesis by blast
      qed
    qed
  qed
qed

lemma WaitForCard_loop_absent:
  assumes "i < 3" and "G (events s) rs INFINITE = (None, rs')"
      and "EventState rs' AND STATE_PRESENT = 0"
  shows "WaitForCard_loop G C name i rs s
     = WaitForCard_loop G C name (i + 1) rs'
        (emit (Sleep_ev (1 * Second)) (emit (Stderr_ev (''wait for card...'' @ newline))
           (emit (GetStatusChange_ev rs INFINITE None rs') s)))"
  by (subst WaitForCard_loop.simps) (simp add: assms Let_def)

lemma WaitForCard_loop_exhausted:
  "WaitForCard_loop G C name 3 rs s = (Exits 1, emit (Stderr_ev msg_card_not_found) s)"
  by (subst WaitForCard_loop.simps) simp


lemma wait_trace_round:
  assumes "wait_trace name n out evs" and "EventState rs' AND STATE_PRESENT = 0"
  shows "wait_trace name (Suc n) out (absent_round (rs, rs') @ evs)"
proof -
  from assms(1) obtain rounds tail where
    e: "evs = concat (map absent_round rounds) @ tail"
    and a: "\<forall>r \<in> set rounds. EventState (snd r) AND STATE_PRESENT = 0"
    and t: "out = Exits 1 \<and> length rounds = n \<and> tail = [Stderr_ev msg_card_not_found]
       \<or> (\<exists>a e b. out = Returns None \<and> length rounds < n
             \<and> tail = [GetStatusChange_ev a INFINITE (Some e) b,
                        Stderr_ev (msg_error_prefix @ e @ newline)])
       \<or> (\<exists>a b card. out = Returns card \<and> length rounds < n
             \<and> EventState b AND STATE_PRESENT \<noteq> 0
             \<and> tail = [GetStatusChange_ev a INFINITE None b,
                        Connect_ev name SHARE_EXCLUSIVE PROTOCOL_ANY card])"
    unfolding wait_trace_def by blast
  let ?rounds = "(rs, rs') # rounds"
  have e': "absent_round (rs, rs') @ evs = concat (map absent_round ?rounds) @ tail"
    using e by simp
  have a': "\<forall>r \<in> set ?rounds. EventState (snd r) AND STATE_PRESENT = 0"
    using a assms(2) by simp
  have t': "out = Exits 1 \<and> length ?rounds = Suc n \<and> tail = [Stderr_ev msg_card_not_found]
       \<or> (\<exists>a e b. out = Returns None \<and> length ?rounds < Suc n
             \<and> tail = [GetStatusChange_ev a INFINITE (Some e) b,
                        Stderr_ev (msg_error_prefix @ e @ newline)])
       \<or> (\<exists>a b card. out = Returns card \<and> length ?rounds < Suc n
             \<and> EventState b AND STATE_PRESENT \<noteq> 0
             \<and> tail = [GetStatusChange_ev a INFINITE None b,
                        Connect_ev name SHARE_EXCLUSIVE PROTOCOL_ANY card])"
    using t by simp
  show ?thesis unfolding wait_trace_def
    by (rule exI [of _ ?rounds], rule exI [of _ tail]) (use e' a' t' in blast)
qed

lemma WaitForCard_loop_trace:
  "\<exists>evs. events (snd (WaitForCard_loop G C name i rs s)) = events s @ evs
      \<and> wait_trace name (3 - i) (fst (WaitForCard_loop G C name i rs s)) evs"
proof (induction G C name i rs s rule: WaitForCard_loop.induct)
  case (1 G C name i rs s)
  show ?case
  proof (cases "i < 3")
    case False
    have "wait_trace name 0 (Exits 1) [Stderr_ev msg_card_not_found]"
      unfolding wait_trace_def by (rule exI [of _ "[]"]) simp
    with False show ?thesis by (subst (1 2) WaitForCard_loop.simps) simp
  next
    case True
    obtain err rs' where g: "G (events s) rs INFINITE = (err, rs')" by (metis prod.exhaust)
    let ?s1 = "emit (GetStatusChange_ev rs INFINITE err rs') s"
    show ?thesis
    proof (cases err)
      case (Some e)
      have r: "WaitForCard_loop G C name i rs s
             = (Returns None, emit (Stderr_ev (msg_error_prefix @ e @ newline)) ?s1)"
        by (subst WaitForCard_loop.simps) (simp add: True g Some)
      have "wait_trace name (3 - i) (Returns None)
              [GetStatusChange_ev rs INFINITE (Some e) rs', Stderr_ev (msg_error_prefix @ e @ newline)]"
        unfolding wait_trace_def by (rule exI [of _ "[]"]) (use True in simp)
      then show ?thesis using r Some by simp
    next
      case None
      show ?thesis
      proof (cases "EventState rs' AND STATE_PRESENT \<noteq> 0")
        case present: True
        let ?card = "C (events ?s1) name SHARE_EXCLUSIVE PROTOCOL_ANY"
        have r: "WaitForCard_loop G C name i rs s
             = (Returns ?card, (emit (Connect_ev name SHARE_EXCLUSIVE PROTOCOL_ANY ?card) ?s1)
                                   \<lparr>card_field := ?card\<rparr>)"
          by (subst WaitForCard_loop.simps) (simp add: True g None present Let_def)
        have "wait_trace name (3 - i) (Returns ?card)
              [GetStatusChange_ev rs INFINITE None rs', Connect_ev name SHARE_EXCLUSIVE PROTOCOL_ANY ?card]"
          unfolding wait_trace_def by (rule exI [of _ "[]"]) (use True present in simp)
        then show ?thesis using r None by simp
      next
        case absent: False
        let ?s3 = "emit (Sleep_ev (1 * Second)) (emit (Stderr_ev (''wait for card...'' @ newline)) ?s1)"
        have step: "WaitForCard_loop G C name i rs s = WaitForCard_loop G C name (i + 1) rs' ?s3"
          by (subst WaitForCard_loop.simps) (use absent in \<open>simp add: True g None Let_def\<close>)
        from "1.IH" [OF True g [symmetric] refl None _ ] absent
        obtain evs where
          a: "events (snd (WaitForCard_loop G C name (i + 1) rs' ?s3)) = events ?s3 @ evs"
          and b: "wait_trace name (3 - (i + 1)) (fst (WaitForCard_loop G C name (i + 1) rs' ?s3)) evs"
          by auto
        have n: "3 - i = Suc (3 - (i + 1))" using True by simp
        have "events (snd (WaitForCard_loop G C name i rs s)) = events s @ (absent_round (rs, rs') @ evs)"
          unfolding step a by (simp add: None absent_round_def)
        moreover have "wait_trace name (3 - i) (fst (WaitForCard_loop G C name i rs s))
             (absent_round (rs, rs') @ evs)"
          unfolding step n using wait_trace_round [OF b, of rs' rs] absent by simp
        ultimately show ?thesis by blast
      qed
    qed
  qed
qed


text \<open>
  Claim C5. Whatever the reader reports, the events of \<open>WaitForCard\<close> are some attempts
  that found no card, each one a poll followed by a line on standard error and a sleep of
  one second, and then one of three endings. There are at most three polls. After three
  attempts without a card the function prints that no card was found and ends the process
  with \<open>os.Exit(1)\<close>: no further poll follows. Before that, a poll that fails makes it print
  the error and return nil, and a poll that finds the card makes it connect and return the
  card.
\<close>

theorem WaitForCard_three_attempts:
  "\<exists>evs rounds tail.
      events (snd (WaitForCard GetStatusChange Connect name s)) = events s @ evs
    \<and> length (filter is_poll evs) \<le> 3
    \<and> evs = concat (map absent_round rounds) @ tail
    \<and> (\<forall>r \<in> set rounds. EventState (snd r) AND STATE_PRESENT = 0)
    \<and> (fst (WaitForCard GetStatusChange Connect name s) = Exits 1 \<and> length rounds = 3
          \<and> tail = [Stderr_ev msg_card_not_found]
       \<or> (\<exists>a e b. fst (WaitForCard GetStatusChange Connect name s) = Returns None
             \<and> length rounds < 3
             \<and> tail = [GetStatusChange_ev a INFINITE (Some e) b,
                        Stderr_ev (msg_error_prefix @ e @ newline)])
       \<or> (\<exists>a b card. fst (WaitForCard GetStatusChange Connect name s) = Returns card
             \<and> length rounds < 3
             \<and> EventState b AND STATE_PRESENT \<noteq> 0
             \<and> tail = [GetStatusChange_ev a INFINITE None b,
                        Connect_ev name SHARE_EXCLUSIVE PROTOCOL_ANY card]))"
proof -
  let ?rs = "\<lparr>Reader = name, CurrentState = STATE_UNAWARE, EventState = 0\<rparr>"
  let ?r = "WaitForCard_loop GetStatusChange Connect name 0 ?rs s"
  obtain evs where e: "events (snd ?r) = events s @ evs" and t: "wait_trace name 3 (fst ?r) evs"
    using WaitForCard_loop_trace [of GetStatusChange Connect name 0 ?rs s] by auto
  obtain evs' where e': "events (snd ?r) = events s @ evs'" and b: "length (filter is_poll evs') \<le> 3"
    using WaitForCard_loop_bound [of GetStatusChange Connect name 0 ?rs s] by auto
  have "evs' = evs" using e e' by simp
  with b have b': "length (filter is_poll evs) \<le> 3" by simp
  from t obtain rounds tail where
    f3: "evs = concat (map absent_round rounds) @ tail"
    and f4: "\<forall>r \<in> set rounds. EventState (snd r) AND STATE_PRESENT = 0"
    and f5: "fst ?r = Exits 1 \<and> length rounds = 3 \<and> tail = [Stderr_ev msg_card_not_found]
       \<or> (\<exists>a e b. fst ?r = Returns None \<and> length rounds < 3
             \<and> tail = [GetStatusChange_ev a INFINITE (Some e) b,
                        Stderr_ev (msg_error_prefix @ e @ newline)])
       \<or> (\<exists>a b card. fst ?r = Returns card \<and> length rounds < 3
             \<and> EventState b AND STATE_PRESENT \<noteq> 0
             \<and> tail = [GetStatusChange_ev a INFINITE None b,
                        Connect_ev name SHARE_EXCLUSIVE PROTOCOL_ANY card])"
    unfolding wait_trace_def by blast
  show ?thesis unfolding WaitForCard_def
    by (intro exI conjI) (rule e, rule b', rule f3, rule f4, rule f5)
qed

lemma WaitForCard_absent_run:
  "WaitForCard pcsc_absent connect_none ''reader'' s0 =
     (Exits 1, \<lparr>events =
        absent_round (\<lparr>Reader = ''reader'', CurrentState = STATE_UNAWARE, EventState = 0\<rparr>,
                      \<lparr>Reader = ''reader'', CurrentState = STATE_UNAWARE, EventState = 0x10\<rparr>)
        @ absent_round (\<lparr>Reader = ''reader'', CurrentState = STATE_UNAWARE, EventState = 0x10\<rparr>,
                      \<lparr>Reader = ''reader'', CurrentState = STATE_UNAWARE, EventState = 0x10\<rparr>)
        @ absent_round (\<lparr>Reader = ''reader'', CurrentState = STATE_UNAWARE, EventState = 0x10\<rparr>,
                      \<lparr>Reader = ''reader'', CurrentState = STATE_UNAWARE, EventState = 0x10\<rparr>)
        @ [Stderr_ev msg_card_not_found], card_field = None\<rparr>)"
  by (simp add: WaitForCard_def WaitForCard_loop.simps [of _ _ _ 0] WaitForCard_loop.simps [of _ _ _ 1]
      WaitForCard_loop.simps [of _ _ _ 2] WaitForCard_loop.simps [of _ _ _ 3]
      WaitForCard_loop.simps [of _ _ _ "Suc 0"] WaitForCard_loop.simps [of _ _ _ "Suc (Suc 0)"]
      WaitForCard_loop.simps [of _ _ _ "Suc (Suc (Suc 0))"]
      pcsc_absent_def STATE_PRESENT_def emit_def s0_def absent_round_def)

theorem WaitForCard_three_attempts_witness:
  "fst (WaitForCard pcsc_absent connect_none ''reader'' s0) = Exits 1
   \<and> length (filter is_poll (events (snd (WaitForCard pcsc_absent connect_none ''reader'' s0)))) = 3
   \<and> (\<exists>evs rounds tail.
      events (snd (WaitForCard pcsc_absent connect_none ''reader'' s0)) = events s0 @ evs
    \<and> length (filter is_poll evs) \<le> 3
    \<and> evs = concat (map absent_round rounds) @ tail
    \<and> (\<forall>r \<in> set rounds. EventState (snd r) AND STATE_PRESENT = 0)
    \<and> length rounds = 3 \<and> tail = [Stderr_ev msg_card_not_found])"
proof -
  have x: "fst (WaitForCard pcsc_absent connect_none ''reader'' s0) = Exits 1"
    by (simp add: WaitForCard_absent_run)
  have p: "length (filter is_poll (events (snd (WaitForCard pcsc_absent connect_none ''reader'' s0)))) = 3"
    by (simp add: WaitForCard_absent_run absent_round_def)
  from WaitForCard_three_attempts [of pcsc_absent connect_none "''reader''" s0] x
  have "\<exists>evs rounds tail.
      events (snd (WaitForCard pcsc_absent connect_none ''reader'' s0)) = events s0 @ evs
    \<and> length (filter is_poll evs) \<le> 3
    \<and> evs = concat (map absent_round rounds) @ tail
    \<and> (\<forall>r \<in> set rounds. EventState (snd r) AND STATE_PRESENT = 0)
    \<and> length rounds = 3 \<and> tail = [Stderr_ev msg_card_not_found]"
    by (elim exE conjE disjE) (simp_all, blast)
  with x p show ?thesis by (intro conjI)
qed

end
